theory Spec2Isabelle
  imports Complex_Main
begin

section \<open>Progressive income tax: the bracket engine of app.py\<close>

text \<open>
  The engine of \<^verbatim>\<open>app.py\<close> is a registry of bracket tables keyed by year
  (\<^verbatim>\<open>TAX_BRACKETS_BY_YEAR\<close>) and two loops over one table: \<^verbatim>\<open>calculate_tax\<close>
  and \<^verbatim>\<open>get_bracket_breakdown\<close>.

  Numbers. The arithmetic is read in two ways. In the first, numbers are exact reals: the
  rate \<^verbatim>\<open>0.11\<close> is the real \<open>11/100\<close>, and \<open>+\<close>, \<open>-\<close>, \<open>*\<close>, \<open>/\<close> are exact;
  \<open>tax_loop\<close> and \<open>breakdown_loop\<close> are the loops in that reading, which settles which
  brackets are entered, in what order, and what the amounts add up to. In the second,
  \<open>tax_loop_double\<close>, every literal and every operation is rounded to the nearest binary
  double, as Python's \<^verbatim>\<open>float\<close> does; it settles what depends on the rounding. The one
  non-finite value of the source, \<^verbatim>\<open>float('inf')\<close> as the upper bound of the top bracket,
  is the constructor \<open>Unbounded\<close>.
\<close>

subsection \<open>Data\<close>

datatype upper = Upto real | Unbounded

record bracket =
  min_b :: real
  max_b :: upper
  rate :: real

text \<open>\<^verbatim>\<open>min(income, bracket["max"])\<close>: with an infinite maximum it is the income.\<close>

fun min_upper :: "real \<Rightarrow> upper \<Rightarrow> real" where
  "min_upper income (Upto m) = min income m"
| "min_upper income Unbounded = income"

datatype py_error = KeyError

text \<open>A subscript \<^verbatim>\<open>d[k]\<close> raises KeyError on a missing key; \<^verbatim>\<open>d.get(k, default)\<close> does not.\<close>

definition subscript :: "('k \<rightharpoonup> 'v) \<Rightarrow> 'k \<Rightarrow> py_error + 'v" where
  "subscript d k = (case d k of None \<Rightarrow> Inl KeyError | Some v \<Rightarrow> Inr v)"

definition dict_get :: "('k \<rightharpoonup> 'v) \<Rightarrow> 'k \<Rightarrow> 'v \<Rightarrow> 'v" where
  "dict_get d k dflt = (case d k of None \<Rightarrow> dflt | Some v \<Rightarrow> v)"

text \<open>The four tables of the registry, in the order of the dictionary literal.\<close>

definition brackets_2025 :: "bracket list" where
  "brackets_2025 = [
     \<lparr>min_b = 0, max_b = Upto 10064, rate = 0.00\<rparr>,
     \<lparr>min_b = 10064, max_b = Upto 25659, rate = 0.11\<rparr>,
     \<lparr>min_b = 25659, max_b = Upto 73369, rate = 0.30\<rparr>,
     \<lparr>min_b = 73369, max_b = Upto 157806, rate = 0.41\<rparr>,
     \<lparr>min_b = 157806, max_b = Unbounded, rate = 0.45\<rparr>]"

definition brackets_2024 :: "bracket list" where
  "brackets_2024 = [
     \<lparr>min_b = 0, max_b = Upto 9875, rate = 0.00\<rparr>,
     \<lparr>min_b = 9875, max_b = Upto 25175, rate = 0.10\<rparr>,
     \<lparr>min_b = 25175, max_b = Upto 72000, rate = 0.28\<rparr>,
     \<lparr>min_b = 72000, max_b = Upto 155000, rate = 0.40\<rparr>,
     \<lparr>min_b = 155000, max_b = Unbounded, rate = 0.44\<rparr>]"

definition brackets_2023 :: "bracket list" where
  "brackets_2023 = [
     \<lparr>min_b = 0, max_b = Upto 9325, rate = 0.00\<rparr>,
     \<lparr>min_b = 9325, max_b = Upto 24500, rate = 0.10\<rparr>,
     \<lparr>min_b = 24500, max_b = Upto 70500, rate = 0.27\<rparr>,
     \<lparr>min_b = 70500, max_b = Upto 152000, rate = 0.39\<rparr>,
     \<lparr>min_b = 152000, max_b = Unbounded, rate = 0.43\<rparr>]"

definition brackets_2022 :: "bracket list" where
  "brackets_2022 = [
     \<lparr>min_b = 0, max_b = Upto 8900, rate = 0.00\<rparr>,
     \<lparr>min_b = 8900, max_b = Upto 23850, rate = 0.09\<rparr>,
     \<lparr>min_b = 23850, max_b = Upto 68500, rate = 0.26\<rparr>,
     \<lparr>min_b = 68500, max_b = Upto 148000, rate = 0.38\<rparr>,
     \<lparr>min_b = 148000, max_b = Unbounded, rate = 0.42\<rparr>]"

definition TAX_BRACKETS_BY_YEAR :: "string \<rightharpoonup> bracket list" where
  "TAX_BRACKETS_BY_YEAR = [
     ''2025'' \<mapsto> brackets_2025,
     ''2024'' \<mapsto> brackets_2024,
     ''2023'' \<mapsto> brackets_2023,
     ''2022'' \<mapsto> brackets_2022]"

subsection \<open>Number formatting\<close>

text \<open>
  The format specifications the source uses are \<^verbatim>\<open>,.0f\<close>, \<^verbatim>\<open>.0f\<close>, \<^verbatim>\<open>,.2f\<close> and
  \<^verbatim>\<open>.2f\<close>: fixed-point with a given number of decimals, rounded half to even, with or
  without a comma every three digits of the integer part. \<open>format_f comma d x\<close> is that
  on the exact value \<open>x\<close>.
\<close>

definition digit_char :: "nat \<Rightarrow> char" where
  "digit_char d = ''0123456789'' ! d"

fun digits_of :: "nat \<Rightarrow> string" where
  "digits_of n = (if n < 10 then [digit_char n] else digits_of (n div 10) @ [digit_char (n mod 10)])"

declare digits_of.simps [simp del]

fun commas_rev :: "string \<Rightarrow> string" where
  "commas_rev (a # b # c # d # rest) = a # b # c # CHR '','' # commas_rev (d # rest)"
| "commas_rev ds = ds"

definition group_thousands :: "string \<Rightarrow> string" where
  "group_thousands ds = rev (commas_rev (rev ds))"

definition round_half_even :: "real \<Rightarrow> int" where
  "round_half_even y =
     (let n = \<lfloor>y\<rfloor>; d = y - of_int n
      in if d > 1/2 \<or> (d = 1/2 \<and> odd n) then n + 1 else n)"

definition zero_pad :: "nat \<Rightarrow> string \<Rightarrow> string" where
  "zero_pad w ds = replicate (w - length ds) CHR ''0'' @ ds"

definition format_f :: "bool \<Rightarrow> nat \<Rightarrow> real \<Rightarrow> string" where
  "format_f comma d x =
     (let q = nat (round_half_even (\<bar>x\<bar> * 10 ^ d));
          int_part = digits_of (q div 10 ^ d);
          frac_part = zero_pad d (digits_of (q mod 10 ^ d))
      in (if x < 0 then ''-'' else '''')
         @ (if comma then group_thousands int_part else int_part)
         @ (if d = 0 then '''' else ''.'' @ frac_part))"

subsection \<open>calculate_tax\<close>

text \<open>
  The loop of \<^verbatim>\<open>calculate_tax\<close>, with \<^verbatim>\<open>total_tax\<close> as the accumulator: a bracket is
  entered only when \<^verbatim>\<open>income > bracket["min"]\<close>.
\<close>

fun tax_loop :: "real \<Rightarrow> bracket list \<Rightarrow> real \<Rightarrow> real" where
  "tax_loop income [] total_tax = total_tax"
| "tax_loop income (bracket # brackets) total_tax =
     (if income > min_b bracket then
        (let taxable_in_bracket = min_upper income (max_b bracket) - min_b bracket;
             tax_in_bracket = taxable_in_bracket * rate bracket
         in tax_loop income brackets (total_tax + tax_in_bracket))
      else tax_loop income brackets total_tax)"

text \<open>
  \<^verbatim>\<open>TAX_BRACKETS_BY_YEAR.get(year, TAX_BRACKETS_BY_YEAR["2025"])\<close>: the default is
  evaluated first, by a subscript that raises on a missing key.
\<close>

definition calculate_tax :: "real \<Rightarrow> string \<Rightarrow> py_error + real" where
  "calculate_tax income year =
     (case subscript TAX_BRACKETS_BY_YEAR ''2025'' of
        Inl e \<Rightarrow> Inl e
      | Inr dflt \<Rightarrow>
          (let brackets = dict_get TAX_BRACKETS_BY_YEAR year dflt
           in Inr (tax_loop income brackets 0)))"

subsection \<open>calculate_tax in binary doubles\<close>

text \<open>
  Rounding to the nearest double (IEEE 754 binary64, ties to even): for
  \<open>2^k \<le> \<bar>x\<bar> < 2^(k+1)\<close> the result is the multiple of \<open>2^(k-52)\<close> nearest to \<open>x\<close>, and
  of two nearest ones the one with the even multiplier. \<open>ilog2 x\<close> is that \<open>k\<close>, computed
  from the bit length of \<open>\<lfloor>x\<rfloor>\<close> for \<open>x \<ge> 1\<close> and of \<open>\<lceil>1/x\<rceil> - 1\<close> below. The exponent is
  not bounded: overflow and subnormal numbers are not modelled. The incomes of the script
  are whole numbers up to 10,000,000, far inside the normal range.
\<close>

fun bit_length :: "nat \<Rightarrow> nat" where
  "bit_length n = (if n = 0 then 0 else Suc (bit_length (n div 2)))"

declare bit_length.simps [simp del]

definition ilog2 :: "real \<Rightarrow> int" where
  "ilog2 x = (if 1 \<le> x then int (bit_length (nat \<lfloor>x\<rfloor>)) - 1
              else - int (bit_length (nat \<lceil>1 / x\<rceil> - 1)))"

definition pow2 :: "int \<Rightarrow> real" where
  "pow2 e = (if 0 \<le> e then 2 ^ nat e else 1 / 2 ^ nat (- e))"

definition round_double :: "real \<Rightarrow> real" where
  "round_double x =
     (if x = 0 then 0
      else (let e = ilog2 \<bar>x\<bar> - 52;
                m = round_half_even (\<bar>x\<bar> / pow2 e)
            in sgn x * of_int m * pow2 e))"

text \<open>Python's \<^verbatim>\<open>+\<close>, \<^verbatim>\<open>-\<close> and \<^verbatim>\<open>*\<close> on floats: the exact result, rounded.\<close>

definition fl_add :: "real \<Rightarrow> real \<Rightarrow> real" where
  "fl_add a b = round_double (a + b)"

definition fl_sub :: "real \<Rightarrow> real \<Rightarrow> real" where
  "fl_sub a b = round_double (a - b)"

definition fl_mul :: "real \<Rightarrow> real \<Rightarrow> real" where
  "fl_mul a b = round_double (a * b)"

text \<open>
  The loop of \<^verbatim>\<open>calculate_tax\<close> as the interpreter runs it. The rate of a table is the
  decimal of the source text, and \<open>round_double (rate bracket)\<close> the double that the
  literal denotes. The bounds are whole numbers, which are doubles.
\<close>

fun tax_loop_double :: "real \<Rightarrow> bracket list \<Rightarrow> real \<Rightarrow> real" where
  "tax_loop_double income [] total_tax = total_tax"
| "tax_loop_double income (bracket # brackets) total_tax =
     (if income > min_b bracket then
        (let taxable_in_bracket = fl_sub (min_upper income (max_b bracket)) (min_b bracket);
             tax_in_bracket = fl_mul taxable_in_bracket (round_double (rate bracket))
         in tax_loop_double income brackets (fl_add total_tax tax_in_bracket))
      else tax_loop_double income brackets total_tax)"

definition calculate_tax_double :: "real \<Rightarrow> string \<Rightarrow> py_error + real" where
  "calculate_tax_double income year =
     (case subscript TAX_BRACKETS_BY_YEAR ''2025'' of
        Inl e \<Rightarrow> Inl e
      | Inr dflt \<Rightarrow>
          (let brackets = dict_get TAX_BRACKETS_BY_YEAR year dflt
           in Inr (tax_loop_double income brackets 0)))"

subsection \<open>get_bracket_breakdown\<close>

record entry =
  Tranche :: string
  Taux :: string
  Revenu_Imposable :: string
  Montant_d_Impot :: string
  tax_amount_raw :: real

text \<open>
  The loop of \<^verbatim>\<open>get_bracket_breakdown\<close>, with the list \<^verbatim>\<open>breakdown\<close> as the
  accumulator; \<^verbatim>\<open>max_val\<close> is computed by the source and never read.
\<close>

fun breakdown_loop :: "real \<Rightarrow> bracket list \<Rightarrow> entry list \<Rightarrow> entry list" where
  "breakdown_loop income [] breakdown = breakdown"
| "breakdown_loop income (bracket # brackets) breakdown =
     (if income > min_b bracket then
        (let max_val = (case max_b bracket of Upto m \<Rightarrow> m | Unbounded \<Rightarrow> income);
             taxable_in_bracket = min_upper income (max_b bracket) - min_b bracket;
             tax_in_bracket = taxable_in_bracket * rate bracket;
             bracket_name =
               (case max_b bracket of
                  Unbounded \<Rightarrow> format_f True 0 (min_b bracket) @ '' $ +''
                | Upto m \<Rightarrow> format_f True 0 (min_b bracket) @ '' $ - '' @ format_f True 0 m @ '' $'')
         in breakdown_loop income brackets
              (breakdown @
               [\<lparr>Tranche = bracket_name,
                 Taux = format_f False 0 (rate bracket * 100) @ ''%'',
                 Revenu_Imposable = format_f True 2 taxable_in_bracket @ '' $'',
                 Montant_d_Impot = format_f True 2 tax_in_bracket @ '' $'',
                 tax_amount_raw = tax_in_bracket\<rparr>]))
      else breakdown_loop income brackets breakdown)"

definition get_bracket_breakdown :: "real \<Rightarrow> string \<Rightarrow> py_error + entry list" where
  "get_bracket_breakdown income year =
     (case subscript TAX_BRACKETS_BY_YEAR ''2025'' of
        Inl e \<Rightarrow> Inl e
      | Inr dflt \<Rightarrow>
          (let brackets = dict_get TAX_BRACKETS_BY_YEAR year dflt
           in Inr (breakdown_loop income brackets [])))"

subsection \<open>The summary of the first tab\<close>

text \<open>
  The script computes the summary only under \<^verbatim>\<open>if income > 0\<close>, with the default year
  of \<^verbatim>\<open>calculate_tax\<close>; \<open>None\<close> is the run that computes nothing. The division is
  guarded a second time by the conditional expression of the source.
\<close>

record summary =
  summary_taxable_income :: real
  summary_gross_tax :: real
  summary_total_tax :: real
  summary_effective_rate :: real
  summary_net_income :: real

definition simple_summary :: "real \<Rightarrow> real \<Rightarrow> real \<Rightarrow> py_error + summary option" where
  "simple_summary income total_deductions total_credits =
     (if income > 0 then
        (let taxable_income = max 0 (income - total_deductions)
         in case calculate_tax taxable_income ''2025'' of
              Inl e \<Rightarrow> Inl e
            | Inr gross_tax \<Rightarrow>
                (let total_tax = max 0 (gross_tax - total_credits);
                     effective_rate = (if income > 0 then total_tax / income * 100 else 0);
                     net_income = income - total_tax
                 in Inr (Some \<lparr>summary_taxable_income = taxable_income,
                                 summary_gross_tax = gross_tax,
                                 summary_total_tax = total_tax,
                                 summary_effective_rate = effective_rate,
                                 summary_net_income = net_income\<rparr>)))
      else Inr None)"

subsection \<open>What the loops compute, bracket by bracket\<close>

text \<open>
  The design describes both loops by one step per bracket: a bracket is entered when its
  lower bound is strictly below the income, the amount taxed in it is
  \<open>min(income, upper) - lower\<close>, and its contribution is that amount times the rate.
\<close>

definition entered :: "real \<Rightarrow> bracket \<Rightarrow> bool" where
  "entered x b = (min_b b < x)"

definition bracket_tax :: "real \<Rightarrow> bracket \<Rightarrow> real" where
  "bracket_tax x b = (min_upper x (max_b b) - min_b b) * rate b"

definition marginal_sum :: "real \<Rightarrow> bracket list \<Rightarrow> real" where
  "marginal_sum x bs = sum_list (map (bracket_tax x) (filter (entered x) bs))"

definition bracket_label :: "bracket \<Rightarrow> string" where
  "bracket_label b =
     (case max_b b of
        Unbounded \<Rightarrow> format_f True 0 (min_b b) @ '' $ +''
      | Upto m \<Rightarrow> format_f True 0 (min_b b) @ '' $ - '' @ format_f True 0 m @ '' $'')"

definition bracket_entry :: "real \<Rightarrow> bracket \<Rightarrow> entry" where
  "bracket_entry x b =
     \<lparr>Tranche = bracket_label b,
      Taux = format_f False 0 (rate b * 100) @ ''%'',
      Revenu_Imposable = format_f True 2 (min_upper x (max_b b) - min_b b) @ '' $'',
      Montant_d_Impot = format_f True 2 (bracket_tax x b) @ '' $'',
      tax_amount_raw = bracket_tax x b\<rparr>"

text \<open>The table a year resolves to: its own, or the table of 2025.\<close>

definition year_table :: "string \<Rightarrow> bracket list" where
  "year_table year = dict_get TAX_BRACKETS_BY_YEAR year brackets_2025"

text \<open>
  A check on a table, for the proofs: its brackets partition \<open>[lo, \<infinity>)\<close> without gap or
  overlap, the last one is unbounded, and every rate is a fraction in \<open>[0, 1]\<close>. Each
  table of the registry passes it from \<open>lo = 0\<close>.
\<close>

fun partition_from :: "real \<Rightarrow> bracket list \<Rightarrow> bool" where
  "partition_from lo [] = False"
| "partition_from lo (b # bs) =
     (min_b b = lo \<and> 0 \<le> rate b \<and> rate b \<le> 1 \<and>
      (case max_b b of
         Upto m \<Rightarrow> lo < m \<and> partition_from m bs
       | Unbounded \<Rightarrow> bs = []))"

section \<open>Properties\<close>

subsection \<open>The loops as sums and maps\<close>

lemma marginal_sum_Nil [simp]: "marginal_sum x [] = 0"
  by (simp add: marginal_sum_def)

lemma marginal_sum_Cons:
  "marginal_sum x (b # bs) = (if min_b b < x then bracket_tax x b + marginal_sum x bs else marginal_sum x bs)"
  by (simp add: marginal_sum_def entered_def)

lemma tax_loop_marginal_sum: "tax_loop x bs t = t + marginal_sum x bs"
  by (induction bs arbitrary: t) (simp_all add: marginal_sum_Cons bracket_tax_def Let_def)

lemma breakdown_loop_map:
  "breakdown_loop x bs acc = acc @ map (bracket_entry x) (filter (entered x) bs)"
  by (induction bs arbitrary: acc)
     (simp_all add: entered_def bracket_entry_def bracket_label_def bracket_tax_def Let_def)

lemma tax_amount_raw_entry [simp]: "tax_amount_raw (bracket_entry x b) = bracket_tax x b"
  by (simp add: bracket_entry_def)

subsection \<open>Resolving a year\<close>

lemma registry_lookup:
  "TAX_BRACKETS_BY_YEAR year =
     (if year = ''2022'' then Some brackets_2022
      else if year = ''2023'' then Some brackets_2023
      else if year = ''2024'' then Some brackets_2024
      else if year = ''2025'' then Some brackets_2025
      else None)"
  by (simp add: TAX_BRACKETS_BY_YEAR_def)

lemma default_table: "subscript TAX_BRACKETS_BY_YEAR ''2025'' = Inr brackets_2025"
  by (simp add: subscript_def registry_lookup)

lemma calculate_tax_table: "calculate_tax x year = Inr (tax_loop x (year_table year) 0)"
  by (simp add: calculate_tax_def default_table year_table_def)

lemma get_bracket_breakdown_table:
  "get_bracket_breakdown x year = Inr (breakdown_loop x (year_table year) [])"
  by (simp add: get_bracket_breakdown_def default_table year_table_def)

lemma year_table_cases:
  "year_table year = brackets_2022 \<or> year_table year = brackets_2023 \<or>
   year_table year = brackets_2024 \<or> year_table year = brackets_2025"
  by (simp add: year_table_def dict_get_def registry_lookup)

lemma partition_2025: "partition_from 0 brackets_2025"
  by (simp add: brackets_2025_def)

lemma partition_2024: "partition_from 0 brackets_2024"
  by (simp add: brackets_2024_def)

lemma partition_2023: "partition_from 0 brackets_2023"
  by (simp add: brackets_2023_def)

lemma partition_2022: "partition_from 0 brackets_2022"
  by (simp add: brackets_2022_def)

lemma year_table_partition: "partition_from 0 (year_table year)"
  using year_table_cases [of year] partition_2025 partition_2024 partition_2023 partition_2022
  by auto

subsection \<open>Tables that partition the incomes\<close>

lemma fraction_of_amount:
  fixes a r :: real
  assumes "0 \<le> a" "0 \<le> r" "r \<le> 1"
  shows "0 \<le> a * r" "a * r \<le> a"
  using assms by (simp_all add: mult_left_le)

lemma marginal_sum_below:
  "partition_from lo bs \<Longrightarrow> x \<le> lo \<Longrightarrow> marginal_sum x bs = 0"
proof (induction bs arbitrary: lo)
  case Nil
  then show ?case by simp
next
  case (Cons b bs)
  show ?case
  proof (cases "max_b b")
    case (Upto m)
    with Cons.prems have "partition_from m bs" "x \<le> m" by auto
    then have "marginal_sum x bs = 0" by (rule Cons.IH)
    with Cons.prems show ?thesis by (simp add: marginal_sum_Cons)
  next
    case Unbounded
    with Cons.prems show ?thesis by (simp add: marginal_sum_Cons)
  qed
qed

lemma marginal_sum_bounds:
  "partition_from lo bs \<Longrightarrow> lo \<le> x \<Longrightarrow> 0 \<le> marginal_sum x bs \<and> marginal_sum x bs \<le> x - lo"
proof (induction bs arbitrary: lo)
  case Nil
  then show ?case by simp
next
  case (Cons b bs)
  from Cons.prems have b: "min_b b = lo" "0 \<le> rate b" "rate b \<le> 1" by auto
  show ?case
  proof (cases "max_b b")
    case (Upto m)
    with Cons.prems have rest: "partition_from m bs" and lm: "lo < m" by auto
    show ?thesis
    proof (cases "x \<le> m")
      case True
      with rest have r0: "marginal_sum x bs = 0" by (rule marginal_sum_below)
      from Cons.prems(2) have h: "0 \<le> (x - lo) * rate b" "(x - lo) * rate b \<le> x - lo"
        using fraction_of_amount [of "x - lo" "rate b"] b by auto
      from True r0 b Upto have "marginal_sum x (b # bs) = (if lo < x then (x - lo) * rate b else 0)"
        by (simp add: marginal_sum_Cons bracket_tax_def)
      with h Cons.prems(2) show ?thesis by (simp split: if_splits)
    next
      case False
      then have mx: "m \<le> x" by simp
      from rest mx have ih: "0 \<le> marginal_sum x bs \<and> marginal_sum x bs \<le> x - m" by (rule Cons.IH)
      from lm have h: "0 \<le> (m - lo) * rate b" "(m - lo) * rate b \<le> m - lo"
        using fraction_of_amount [of "m - lo" "rate b"] b by auto
      from False b Upto lm have "marginal_sum x (b # bs) = (m - lo) * rate b + marginal_sum x bs"
        by (simp add: marginal_sum_Cons bracket_tax_def)
      with h ih show ?thesis by linarith
    qed
  next
    case Unbounded
    with Cons.prems have "bs = []" by simp
    with b Unbounded
    have "marginal_sum x (b # bs) = (if lo < x then (x - lo) * rate b else 0)"
      by (simp add: marginal_sum_Cons bracket_tax_def)
    moreover from Cons.prems(2) have "0 \<le> (x - lo) * rate b" "(x - lo) * rate b \<le> x - lo"
      using fraction_of_amount [of "x - lo" "rate b"] b by auto
    ultimately show ?thesis using Cons.prems(2) by (simp split: if_splits)
  qed
qed

lemma min_upper_mono: "x \<le> y \<Longrightarrow> min_upper x u \<le> min_upper y u"
  by (cases u) auto

lemma marginal_sum_mono:
  "partition_from lo bs \<Longrightarrow> x \<le> y \<Longrightarrow> marginal_sum x bs \<le> marginal_sum y bs"
proof (induction bs arbitrary: lo)
  case Nil
  then show ?case by simp
next
  case (Cons b bs)
  from Cons.prems have b: "min_b b = lo" "0 \<le> rate b" "rate b \<le> 1" by auto
  show ?case
  proof (cases "lo < x")
    case False
    then have "marginal_sum x (b # bs) = 0"
      using marginal_sum_below [OF Cons.prems(1), of x] by simp
    moreover have "0 \<le> marginal_sum y (b # bs)"
    proof (cases "lo \<le> y")
      case True
      then show ?thesis using marginal_sum_bounds [OF Cons.prems(1), of y] by simp
    next
      case False
      then show ?thesis using marginal_sum_below [OF Cons.prems(1), of y] by simp
    qed
    ultimately show ?thesis by simp
  next
    case True
    with Cons.prems(2) have ly: "lo < y" by simp
    have head: "bracket_tax x b \<le> bracket_tax y b"
      unfolding bracket_tax_def
      using min_upper_mono [OF Cons.prems(2), of "max_b b"] b(2)
      by (intro mult_right_mono) simp_all
    have rest: "marginal_sum x bs \<le> marginal_sum y bs"
    proof (cases "max_b b")
      case (Upto m)
      with Cons.prems(1) have "partition_from m bs" by simp
      then show ?thesis using Cons.prems(2) by (rule Cons.IH)
    next
      case Unbounded
      with Cons.prems(1) show ?thesis by simp
    qed
    from head rest True ly b show ?thesis by (simp add: marginal_sum_Cons)
  qed
qed

lemma partition_lower:
  "partition_from lo bs \<Longrightarrow> b \<in> set bs \<Longrightarrow> lo \<le> min_b b"
proof (induction bs arbitrary: lo)
  case Nil
  then show ?case by simp
next
  case (Cons a bs)
  show ?case
  proof (cases "b = a")
    case True
    with Cons.prems show ?thesis by simp
  next
    case False
    with Cons.prems have inb: "b \<in> set bs" by simp
    then have "bs \<noteq> []" by auto
    with Cons.prems(1) obtain m where "max_b a = Upto m" "min_b a < m" "partition_from m bs"
      by (cases "max_b a") auto
    with Cons.IH [of m] inb Cons.prems(1) show ?thesis by fastforce
  qed
qed

lemma marginal_sum_segment:
  "partition_from lo bs \<Longrightarrow> b \<in> set bs \<Longrightarrow> max_b b = Upto u \<Longrightarrow> min_b b \<le> y \<Longrightarrow> y \<le> u \<Longrightarrow>
   marginal_sum u bs = marginal_sum y bs + (u - y) * rate b"
proof (induction bs arbitrary: lo)
  case Nil
  then show ?case by simp
next
  case (Cons a bs)
  show ?case
  proof (cases "b = a")
    case True
    with Cons.prems have a: "min_b a = lo" "max_b a = Upto u" "lo < u" "partition_from u bs" by auto
    from a(4) have "marginal_sum u bs = 0" "marginal_sum y bs = 0"
      using marginal_sum_below Cons.prems(5) by auto
    with a True Cons.prems(4,5) show ?thesis
      by (simp add: marginal_sum_Cons bracket_tax_def algebra_simps)
  next
    case False
    with Cons.prems have inb: "b \<in> set bs" by simp
    then have "bs \<noteq> []" by auto
    with Cons.prems(1) obtain m where a: "min_b a = lo" "max_b a = Upto m" "lo < m" "partition_from m bs"
      by (cases "max_b a") auto
    from partition_lower [OF a(4) inb] Cons.prems(4,5) have my: "m \<le> y" "m \<le> u" by simp_all
    from Cons.IH [OF a(4) inb Cons.prems(3,4,5)]
    have "marginal_sum u bs = marginal_sum y bs + (u - y) * rate b" .
    with a my show ?thesis
      by (simp add: marginal_sum_Cons bracket_tax_def)
  qed
qed

subsection \<open>Evaluating the registry\<close>

lemmas format_eval = format_f_def round_half_even_def digits_of.simps digit_char_def
  group_thousands_def zero_pad_def Let_def

lemma year_table_2025: "year_table ''2025'' = brackets_2025"
  by (simp add: year_table_def dict_get_def registry_lookup)

lemma year_table_2024: "year_table ''2024'' = brackets_2024"
  by (simp add: year_table_def dict_get_def registry_lookup)

lemma bracket_entry_fields [simp]:
  "Tranche (bracket_entry x b) = bracket_label b"
  "Taux (bracket_entry x b) = format_f False 0 (rate b * 100) @ ''%''"
  "Revenu_Imposable (bracket_entry x b) = format_f True 2 (min_upper x (max_b b) - min_b b) @ '' $''"
  "Montant_d_Impot (bracket_entry x b) = format_f True 2 (bracket_tax x b) @ '' $''"
  by (simp_all add: bracket_entry_def)

lemma labels_2025: "map bracket_label brackets_2025 =
  [''0 $ - 10,064 $'', ''10,064 $ - 25,659 $'', ''25,659 $ - 73,369 $'',
   ''73,369 $ - 157,806 $'', ''157,806 $ +'']"
  by (simp add: brackets_2025_def bracket_label_def format_eval)

lemma labels_2024: "map bracket_label brackets_2024 =
  [''0 $ - 9,875 $'', ''9,875 $ - 25,175 $'', ''25,175 $ - 72,000 $'',
   ''72,000 $ - 155,000 $'', ''155,000 $ +'']"
  by (simp add: brackets_2024_def bracket_label_def format_eval)

lemma labels_2023: "map bracket_label brackets_2023 =
  [''0 $ - 9,325 $'', ''9,325 $ - 24,500 $'', ''24,500 $ - 70,500 $'',
   ''70,500 $ - 152,000 $'', ''152,000 $ +'']"
  by (simp add: brackets_2023_def bracket_label_def format_eval)

lemma labels_2022: "map bracket_label brackets_2022 =
  [''0 $ - 8,900 $'', ''8,900 $ - 23,850 $'', ''23,850 $ - 68,500 $'',
   ''68,500 $ - 148,000 $'', ''148,000 $ +'']"
  by (simp add: brackets_2022_def bracket_label_def format_eval)

lemma labels_distinct: "distinct (map bracket_label (year_table year))"
  using year_table_cases [of year]
  by (auto simp: labels_2025 labels_2024 labels_2023 labels_2022)

lemma distinct_map_filter_mem:
  assumes "distinct (map f xs)" "b \<in> set xs"
  shows "(f b \<in> f ` set (filter P xs)) = P b"
proof -
  from assms(1) have "inj_on f (set xs)" by (simp add: distinct_map)
  with assms(2) show ?thesis by (auto dest: inj_onD)
qed

subsection \<open>Rounding to doubles\<close>

lemmas double_eval = round_double_def ilog2_def pow2_def round_half_even_def bit_length.simps
  fl_add_def fl_sub_def fl_mul_def Let_def

lemma calculate_tax_double_table:
  "calculate_tax_double x year = Inr (tax_loop_double x (year_table year) 0)"
  by (simp add: calculate_tax_double_def default_table year_table_def)

lemma round_half_even_error: "\<bar>real_of_int (round_half_even y) - y\<bar> \<le> 1 / 2"
proof -
  have "real_of_int \<lfloor>y\<rfloor> \<le> y" "y < real_of_int \<lfloor>y\<rfloor> + 1" by linarith+
  then show ?thesis by (auto simp: round_half_even_def Let_def)
qed

lemma bit_length_upper: "n < 2 ^ bit_length n"
proof (induction n rule: bit_length.induct)
  case (1 n)
  show ?case
  proof (cases "n = 0")
    case True
    then show ?thesis by (simp add: bit_length.simps)
  next
    case False
    with 1 have "n div 2 < 2 ^ bit_length (n div 2)" by simp
    then have "n < 2 * 2 ^ bit_length (n div 2)" by linarith
    with False show ?thesis by (simp add: bit_length.simps [of n])
  qed
qed

lemma bit_length_lower: "0 < n \<Longrightarrow> 2 ^ (bit_length n - 1) \<le> n"
proof (induction n rule: bit_length.induct)
  case (1 n)
  show ?case
  proof (cases "n div 2 = 0")
    case True
    with 1 show ?thesis by (simp add: bit_length.simps [of n] bit_length.simps [of 0])
  next
    case False
    with 1 have ih: "2 ^ (bit_length (n div 2) - 1) \<le> n div 2" by simp
    from False have "0 < bit_length (n div 2)" by (simp add: bit_length.simps [of "n div 2"])
    then have "2 ^ bit_length (n div 2) = 2 * (2::nat) ^ (bit_length (n div 2) - 1)"
      by (cases "bit_length (n div 2)") simp_all
    with ih have "2 ^ bit_length (n div 2) \<le> n" by linarith
    with 1 show ?thesis by (simp add: bit_length.simps [of n])
  qed
qed

lemma pow2_pos: "0 < pow2 e"
  by (simp add: pow2_def)

lemma pow2_minus_52: "pow2 (e - 52) = pow2 e / 2 ^ 52"
proof -
  have p: "pow2 k = 2 powi k" for k
    by (simp add: pow2_def power_int_def inverse_eq_divide power_divide)
  show ?thesis unfolding p by (simp add: power_int_diff)
qed

lemma pow2_neg: "pow2 (- int k) = 1 / 2 ^ k"
  by (cases k) (simp_all add: pow2_def nat_add_distrib)

lemma pow2_ilog2: "0 < x \<Longrightarrow> pow2 (ilog2 x) \<le> x"
proof (cases "1 \<le> x")
  case True
  let ?n = "nat \<lfloor>x\<rfloor>"
  from True have n: "0 < ?n" by simp
  then have b: "0 < bit_length ?n" by (simp add: bit_length.simps [of ?n])
  from bit_length_lower [OF n] have "(2::real) ^ (bit_length ?n - 1) \<le> real ?n"
    by (metis of_nat_le_iff of_nat_numeral of_nat_power)
  also from True have "real ?n \<le> x" by simp
  finally have "(2::real) ^ (bit_length ?n - 1) \<le> x" .
  moreover from b have "nat (int (bit_length ?n) - 1) = bit_length ?n - 1" by simp
  ultimately show ?thesis using True b by (simp add: ilog2_def pow2_def)
next
  case False
  assume pos: "0 < x"
  let ?c = "nat \<lceil>1 / x\<rceil>"
  let ?k = "bit_length (?c - 1)"
  from pos have "1 / x \<le> real_of_int \<lceil>1 / x\<rceil>" by linarith
  moreover from pos have "0 < \<lceil>1 / x\<rceil>" by simp
  ultimately have c: "1 / x \<le> real ?c" "0 < ?c" by simp_all
  from bit_length_upper [of "?c - 1"] c(2) have "?c \<le> 2 ^ ?k" by linarith
  then have "real ?c \<le> 2 ^ ?k" by (metis of_nat_le_iff of_nat_numeral of_nat_power)
  with c(1) have "1 / x \<le> 2 ^ ?k" by linarith
  with pos have "1 / 2 ^ ?k \<le> x"
    by (simp add: field_simps)
  with False show ?thesis by (simp add: ilog2_def pow2_neg)
qed

lemma round_double_error: "\<bar>round_double x - x\<bar> \<le> \<bar>x\<bar> / 2 ^ 53"
proof (cases "x = 0")
  case True
  then show ?thesis by (simp add: round_double_def)
next
  case False
  define P where "P = pow2 (ilog2 \<bar>x\<bar> - 52)"
  define m where "m = round_half_even (\<bar>x\<bar> / P)"
  have P: "0 < P" by (simp add: P_def pow2_pos)
  from False have rd: "round_double x = sgn x * real_of_int m * P"
    by (simp add: round_double_def Let_def P_def m_def)
  from False have "pow2 (ilog2 \<bar>x\<bar>) \<le> \<bar>x\<bar>" by (intro pow2_ilog2) simp
  then have Ple: "P \<le> \<bar>x\<bar> / 2 ^ 52" by (simp add: P_def pow2_minus_52 field_simps)
  have q: "\<bar>real_of_int m - \<bar>x\<bar> / P\<bar> \<le> 1 / 2" unfolding m_def by (rule round_half_even_error)
  have "(real_of_int m - \<bar>x\<bar> / P) * P = real_of_int m * P - \<bar>x\<bar>"
    using P by (simp add: field_simps)
  then have "\<bar>real_of_int m * P - \<bar>x\<bar>\<bar> = \<bar>real_of_int m - \<bar>x\<bar> / P\<bar> * P"
    using P by (metis abs_mult abs_of_pos)
  also from q P have "\<dots> \<le> 1 / 2 * P" by (intro mult_right_mono) simp_all
  finally have e1: "\<bar>real_of_int m * P - \<bar>x\<bar>\<bar> \<le> P / 2" by simp
  have "round_double x - x = sgn x * real_of_int m * P - sgn x * \<bar>x\<bar>"
    by (simp add: rd sgn_mult_abs)
  then have "round_double x - x = sgn x * (real_of_int m * P - \<bar>x\<bar>)"
    by (simp add: algebra_simps)
  then have "\<bar>round_double x - x\<bar> = \<bar>sgn x\<bar> * \<bar>real_of_int m * P - \<bar>x\<bar>\<bar>"
    by (simp only: abs_mult)
  with False have "\<bar>round_double x - x\<bar> = \<bar>real_of_int m * P - \<bar>x\<bar>\<bar>"
    by (simp add: abs_sgn_eq)
  with e1 Ple show ?thesis by simp
qed

lemma two_53: "(2::real) ^ 53 = 9007199254740992"
  by simp

lemma round_double_error_nonneg:
  "0 \<le> x \<Longrightarrow> \<bar>round_double x - x\<bar> \<le> x / 2 ^ 53"
  using round_double_error [of x] by simp

lemma product_error:
  fixes a ad r rr :: real
  assumes "0 \<le> a" "0 \<le> r" "r \<le> 1" "\<bar>ad - a\<bar> \<le> a / 2 ^ 53" "\<bar>rr - r\<bar> \<le> r / 2 ^ 53"
  shows "\<bar>ad * rr - a * r\<bar> \<le> 3 * a / 2 ^ 53"
proof -
  from assms(2,3,5) have rr: "\<bar>rr\<bar> \<le> 2" unfolding two_53 by linarith
  have "\<bar>(ad - a) * rr\<bar> = \<bar>ad - a\<bar> * \<bar>rr\<bar>" by (rule abs_mult)
  also have "\<dots> \<le> a / 2 ^ 53 * 2"
    using assms(1,4) rr by (intro mult_mono) simp_all
  finally have e1: "\<bar>(ad - a) * rr\<bar> \<le> 2 * a / 2 ^ 53" by simp
  from assms(2,3,5) have "\<bar>rr - r\<bar> \<le> 1 / 2 ^ 53" unfolding two_53 by linarith
  with assms(1) have "a * \<bar>rr - r\<bar> \<le> a * (1 / 2 ^ 53)" by (rule mult_left_mono [rotated])
  moreover have "\<bar>a * (rr - r)\<bar> = a * \<bar>rr - r\<bar>" using assms(1) by (simp add: abs_mult)
  ultimately have e2: "\<bar>a * (rr - r)\<bar> \<le> a / 2 ^ 53" by simp
  have "ad * rr - a * r = (ad - a) * rr + a * (rr - r)" by (simp add: algebra_simps)
  with e1 e2 show ?thesis unfolding two_53 by linarith
qed

lemma step_error:
  fixes a r t td d x K :: real
  assumes K: "K = 7 * x / 2 ^ 53"
    and a: "0 \<le> a" "a \<le> x" and r: "0 \<le> r" "r \<le> 1"
    and t: "0 \<le> t" "t + a * r \<le> x" and d: "\<bar>td - t\<bar> \<le> d" "d + K \<le> x"
  shows "\<bar>fl_add td (fl_mul (round_double a) (round_double r)) - (t + a * r)\<bar> \<le> d + K"
proof -
  define p where "p = round_double a * round_double r"
  define tx where "tx = round_double p"
  define s where "s = td + tx"
  define q where "q = a * r"
  from a have x: "0 \<le> x" by simp
  from a r have ar: "0 \<le> q" by (simp add: q_def)
  have "\<bar>p - q\<bar> \<le> 3 * a / 2 ^ 53"
    unfolding p_def q_def
    using a(1) r round_double_error_nonneg [OF a(1)] round_double_error_nonneg [OF r(1)]
    by (rule product_error)
  with a(2) have pe: "\<bar>p - q\<bar> \<le> 3 * x / 2 ^ 53" unfolding two_53 by linarith
  from t ar have qx: "q \<le> x" unfolding q_def by linarith
  with pe ar x have pb: "\<bar>p\<bar> \<le> 2 * x" unfolding two_53 by linarith
  have "\<bar>tx - p\<bar> \<le> \<bar>p\<bar> / 2 ^ 53" unfolding tx_def by (rule round_double_error)
  with pb have te: "\<bar>tx - p\<bar> \<le> 2 * x / 2 ^ 53" unfolding two_53 by linarith
  from pe te have txe: "\<bar>tx - q\<bar> \<le> 5 * x / 2 ^ 53" unfolding two_53 by linarith
  with d(1) have se: "\<bar>s - (t + q)\<bar> \<le> d + 5 * x / 2 ^ 53" unfolding s_def two_53 by linarith
  from t have tq: "0 \<le> t" "t + q \<le> x" unfolding q_def by simp_all
  from se tq ar d(2) x have sb: "\<bar>s\<bar> \<le> 2 * x" unfolding K two_53 by linarith
  have "\<bar>round_double s - s\<bar> \<le> \<bar>s\<bar> / 2 ^ 53" by (rule round_double_error)
  with sb have "\<bar>round_double s - s\<bar> \<le> 2 * x / 2 ^ 53" unfolding two_53 by linarith
  with se have "\<bar>round_double s - (t + q)\<bar> \<le> d + K" unfolding K two_53 by linarith
  then show ?thesis by (simp add: fl_add_def fl_mul_def s_def tx_def p_def q_def)
qed

lemma tax_loop_double_error:
  assumes K: "K = 7 * x / 2 ^ 53"
  shows "partition_from lo bs \<Longrightarrow> 0 \<le> lo \<Longrightarrow> 0 \<le> x \<Longrightarrow> 0 \<le> t \<Longrightarrow> t \<le> lo \<Longrightarrow>
         \<bar>td - t\<bar> \<le> d \<Longrightarrow> d + real (length bs) * K \<le> x \<Longrightarrow>
         \<bar>tax_loop_double x bs td - (t + marginal_sum x bs)\<bar> \<le> d + real (length bs) * K"
proof (induction bs arbitrary: lo t td d)
  case Nil
  then show ?case by simp
next
  case (Cons b bs)
  from Cons.prems(1) have b: "min_b b = lo" "0 \<le> rate b" "rate b \<le> 1" by auto
  from Cons.prems(3) have K0: "0 \<le> K" unfolding K by simp
  then have nK: "0 \<le> real (length bs) * K" by simp
  have len: "real (length (b # bs)) * K = real (length bs) * K + K" by (simp add: algebra_simps)
  show ?case
  proof (cases "lo < x")
    case False
    then have skip: "tax_loop_double x (b # bs) td = tax_loop_double x bs td"
      "marginal_sum x (b # bs) = marginal_sum x bs"
      using b by (simp_all add: marginal_sum_Cons)
    show ?thesis
    proof (cases "max_b b")
      case (Upto m)
      with Cons.prems(1) have rest: "partition_from m bs" and lm: "lo < m" by auto
      from Cons.prems(7) K0 have "d + real (length bs) * K \<le> x" unfolding len by linarith
      with rest Cons.prems lm
      have "\<bar>tax_loop_double x bs td - (t + marginal_sum x bs)\<bar> \<le> d + real (length bs) * K"
        by (intro Cons.IH [of m]) simp_all
      with K0 show ?thesis unfolding skip len by linarith
    next
      case Unbounded
      with Cons.prems(1) have "bs = []" by simp
      with Cons.prems(6) K0 show ?thesis unfolding skip by simp
    qed
  next
    case True
    define a where "a = min_upper x (max_b b) - lo"
    define t' where "t' = t + a * rate b"
    define td' where "td' = fl_add td (fl_mul (round_double a) (round_double (rate b)))"
    from True have a: "0 \<le> a" "a \<le> x - lo" "lo + a = min_upper x (max_b b)"
      using Cons.prems(1) b by (cases "max_b b"; simp add: a_def)+
    from a Cons.prems(2) have ax: "a \<le> x" by linarith
    from a(1) b have ar: "0 \<le> a * rate b" "a * rate b \<le> a"
      using fraction_of_amount [of a "rate b"] by simp_all
    from Cons.prems(7) nK have dK: "d + K \<le> x" unfolding len by linarith
    from ar a Cons.prems(5) have tx: "t + a * rate b \<le> x" by linarith
    have step: "\<bar>td' - t'\<bar> \<le> d + K"
      unfolding td'_def t'_def
      using K a(1) ax b(2,3) Cons.prems(4) tx Cons.prems(6) dK by (rule step_error)
    have enter: "tax_loop_double x (b # bs) td = tax_loop_double x bs td'"
      "t + marginal_sum x (b # bs) = t' + marginal_sum x bs"
      using True b
      by (simp_all add: marginal_sum_Cons bracket_tax_def Let_def td'_def t'_def a_def fl_sub_def)
    show ?thesis
    proof (cases "max_b b")
      case (Upto m)
      with Cons.prems(1) have rest: "partition_from m bs" and lm: "lo < m" by auto
      from a(3) Upto have "lo + a \<le> m" by simp
      with ar Cons.prems(5) have t'm: "t' \<le> m" unfolding t'_def by linarith
      from ar Cons.prems(4) have t'0: "0 \<le> t'" unfolding t'_def by linarith
      from Cons.prems(7) have "d + K + real (length bs) * K \<le> x" unfolding len by linarith
      with rest lm Cons.prems(2,3) t'0 t'm step
      have "\<bar>tax_loop_double x bs td' - (t' + marginal_sum x bs)\<bar> \<le> d + K + real (length bs) * K"
        by (intro Cons.IH [of m]) simp_all
      then show ?thesis unfolding enter len by linarith
    next
      case Unbounded
      with Cons.prems(1) have "bs = []" by simp
      with step show ?thesis unfolding enter by simp
    qed
  qed
qed

lemma marginal_sum_lipschitz:
  "partition_from lo bs \<Longrightarrow> x \<le> y \<Longrightarrow> marginal_sum y bs - marginal_sum x bs \<le> max lo y - max lo x"
proof (induction bs arbitrary: lo)
  case Nil
  then show ?case by simp
next
  case (Cons b bs)
  from Cons.prems have b: "min_b b = lo" "0 \<le> rate b" "rate b \<le> 1" by auto
  define c where "c z = max lo (min_upper z (max_b b))" for z
  have head: "(if lo < z then bracket_tax z b else 0) = (c z - lo) * rate b" for z
    using Cons.prems(1) b by (cases "max_b b") (auto simp: c_def bracket_tax_def)
  have cmono: "0 \<le> c y - c x"
    using Cons.prems(2) by (cases "max_b b") (auto simp: c_def)
  then have hd_le: "(c y - c x) * rate b \<le> c y - c x"
    using fraction_of_amount [of "c y - c x" "rate b"] b by simp
  have split: "marginal_sum z (b # bs) = (c z - lo) * rate b + marginal_sum z bs" for z
  proof -
    have "marginal_sum z (b # bs) = (if lo < z then bracket_tax z b else 0) + marginal_sum z bs"
      using b by (simp add: marginal_sum_Cons)
    then show ?thesis by (simp only: head)
  qed
  have "(c y - lo) * rate b - (c x - lo) * rate b = (c y - c x) * rate b"
    by (simp add: algebra_simps)
  with hd_le have hd: "(c y - lo) * rate b - (c x - lo) * rate b \<le> c y - c x" by simp
  show ?case
  proof (cases "max_b b")
    case (Upto m)
    with Cons.prems(1) have rest: "partition_from m bs" and lm: "lo < m" by auto
    from rest Cons.prems(2) have "marginal_sum y bs - marginal_sum x bs \<le> max m y - max m x"
      by (rule Cons.IH)
    moreover from Upto lm have cm: "c z + max m z = max lo z + m" for z
      by (simp add: c_def max_def min_def)
    ultimately show ?thesis using hd split [of x] split [of y] cm [of x] cm [of y]
      by linarith
  next
    case Unbounded
    with Cons.prems(1) have "bs = []" by simp
    moreover from Unbounded have "c z = max lo z" for z by (simp add: c_def)
    ultimately show ?thesis using hd split [of x] split [of y] by simp
  qed
qed

lemma partition_rate:
  "partition_from lo bs \<Longrightarrow> b \<in> set bs \<Longrightarrow> 0 \<le> rate b \<and> rate b \<le> 1"
proof (induction bs arbitrary: lo)
  case Nil
  then show ?case by simp
next
  case (Cons a bs)
  show ?case
  proof (cases "b = a")
    case True
    with Cons.prems show ?thesis by simp
  next
    case False
    with Cons.prems have inb: "b \<in> set bs" by simp
    then have "bs \<noteq> []" by auto
    with Cons.prems(1) obtain m where "partition_from m bs"
      by (cases "max_b a") auto
    then show ?thesis using inb by (rule Cons.IH)
  qed
qed

lemma year_table_length: "length (year_table year) = 5"
  using year_table_cases [of year]
  by (auto simp: brackets_2025_def brackets_2024_def brackets_2023_def brackets_2022_def)

lemma year_table_upper:
  "b \<in> set (year_table year) \<Longrightarrow> max_b b = Upto u \<Longrightarrow> u \<le> 157806"
  using year_table_cases [of year]
  by (auto simp: brackets_2025_def brackets_2024_def brackets_2023_def brackets_2022_def)

lemma year_table_double_error:
  assumes "0 \<le> x"
  shows "\<bar>tax_loop_double x (year_table year) 0 - marginal_sum x (year_table year)\<bar> \<le> 35 * x / 2 ^ 53"
proof -
  define K where "K = 7 * x / 2 ^ 53"
  from assms have "0 + real (length (year_table year)) * K \<le> x"
    unfolding K_def year_table_length two_53 by simp
  with K_def year_table_partition assms
  have "\<bar>tax_loop_double x (year_table year) 0 - (0 + marginal_sum x (year_table year))\<bar>
          \<le> 0 + real (length (year_table year)) * K"
    by (intro tax_loop_double_error [of K x 0]) simp_all
  then show ?thesis unfolding K_def year_table_length by simp
qed

lemma calculate_tax_segment_exact:
  "b \<in> set (year_table year) \<Longrightarrow> max_b b = Upto u \<Longrightarrow> 0 < eps \<Longrightarrow> eps \<le> u - min_b b \<Longrightarrow>
   \<exists>tu tl. calculate_tax u year = Inr tu \<and> calculate_tax (u - eps) year = Inr tl \<and>
           tu = tl + eps * rate b"
  using marginal_sum_segment [OF year_table_partition, of b year u "u - eps"]
  by (simp add: calculate_tax_table tax_loop_marginal_sum)

section \<open>The claims\<close>

text \<open>
  C1. For every year and every taxable income \<open>x\<close>, the per-bracket tax amounts
  (\<^verbatim>\<open>tax_amount_raw\<close>) of the entries that \<^verbatim>\<open>get_bracket_breakdown(x, year)\<close> returns
  add up to \<^verbatim>\<open>calculate_tax(x, year)\<close> exactly. Both calls return, for every year string.
\<close>

theorem breakdown_sums_to_tax:
  "\<exists>t es. calculate_tax x year = Inr t \<and> get_bracket_breakdown x year = Inr es \<and>
          sum_list (map tax_amount_raw es) = t"
  by (simp add: calculate_tax_table get_bracket_breakdown_table tax_loop_marginal_sum
      breakdown_loop_map marginal_sum_def comp_def)

text \<open>
  C2. For every bracket table and every taxable income \<open>x\<close>, the loop of
  \<^verbatim>\<open>calculate_tax\<close> returns the sum, over the brackets in table order whose lower bound
  is strictly below \<open>x\<close>, of \<open>(min(x, upper) - lower) * rate\<close>; a bracket with
  \<open>x \<le> lower\<close> contributes nothing. The same holds of \<^verbatim>\<open>calculate_tax(x, year)\<close> on the
  table the year resolves to.
\<close>

theorem calculate_tax_marginal:
  "tax_loop x brackets 0 =
     sum_list (map (\<lambda>b. (min_upper x (max_b b) - min_b b) * rate b)
                   (filter (\<lambda>b. min_b b < x) brackets)) \<and>
   calculate_tax x year =
     Inr (sum_list (map (\<lambda>b. (min_upper x (max_b b) - min_b b) * rate b)
                        (filter (\<lambda>b. min_b b < x) (year_table year))))"
proof -
  have "marginal_sum x bs =
     sum_list (map (\<lambda>b. (min_upper x (max_b b) - min_b b) * rate b)
                   (filter (\<lambda>b. min_b b < x) bs))" for bs
    by (induction bs) (simp_all add: marginal_sum_Cons bracket_tax_def)
  then show ?thesis by (simp add: calculate_tax_table tax_loop_marginal_sum)
qed

text \<open>
  C3. For every year, \<^verbatim>\<open>calculate_tax\<close> is monotonically non-decreasing in the taxable
  income: for \<open>0 \<le> x \<le> y\<close>, \<^verbatim>\<open>calculate_tax(x, year) <= calculate_tax(y, year)\<close>.
  The year ranges over all strings, so over the four tables of the registry.
\<close>

theorem calculate_tax_monotone:
  "0 \<le> x \<Longrightarrow> x \<le> y \<Longrightarrow>
   \<exists>tx ty. calculate_tax x year = Inr tx \<and> calculate_tax y year = Inr ty \<and> tx \<le> ty"
  using marginal_sum_mono [OF year_table_partition, of x y year]
  by (simp add: calculate_tax_table tax_loop_marginal_sum)

theorem calculate_tax_monotone_witness:
  "(0::real) \<le> 10064 \<and> (10064::real) \<le> 50000 \<and>
   calculate_tax 10064 ''2023'' = Inr 73.9 \<and> calculate_tax 50000 ''2023'' = Inr 8402.5 \<and>
   (\<exists>tx ty. calculate_tax 10064 ''2023'' = Inr tx \<and> calculate_tax 50000 ''2023'' = Inr ty \<and>
            tx \<le> ty)"
proof -
  have h1: "(0::real) \<le> 10064" and h2: "(10064::real) \<le> 50000" by simp_all
  have t: "year_table ''2023'' = brackets_2023"
    by (simp add: year_table_def dict_get_def registry_lookup)
  have c1: "calculate_tax 10064 ''2023'' = Inr 73.9"
    by (simp add: calculate_tax_table t brackets_2023_def)
  have c2: "calculate_tax 50000 ''2023'' = Inr 8402.5"
    by (simp add: calculate_tax_table t brackets_2023_def)
  from calculate_tax_monotone [OF h1 h2, of "''2023''"] c1 c2 show ?thesis by simp
qed

text \<open>
  C4. For every year string that is not a key of the registry and every income \<open>x\<close>,
  resolving the year does not fail: \<^verbatim>\<open>calculate_tax(x, year)\<close> and
  \<^verbatim>\<open>get_bracket_breakdown(x, year)\<close> return what they return for the default year
  \<^verbatim>\<open>"2025"\<close>.
\<close>

theorem unknown_year_falls_back:
  "TAX_BRACKETS_BY_YEAR year = None \<Longrightarrow>
   (\<exists>t. calculate_tax x year = Inr t \<and> calculate_tax x ''2025'' = Inr t) \<and>
   (\<exists>es. get_bracket_breakdown x year = Inr es \<and> get_bracket_breakdown x ''2025'' = Inr es)"
  by (simp add: calculate_tax_table get_bracket_breakdown_table year_table_def dict_get_def
      registry_lookup)

theorem unknown_year_falls_back_witness:
  "TAX_BRACKETS_BY_YEAR ''1999'' = None \<and>
   calculate_tax 50000 ''1999'' = Inr 9017.75 \<and> calculate_tax 50000 ''2025'' = Inr 9017.75 \<and>
   (\<exists>es. get_bracket_breakdown 50000 ''1999'' = Inr es \<and>
         get_bracket_breakdown 50000 ''2025'' = Inr es)"
proof -
  have h: "TAX_BRACKETS_BY_YEAR ''1999'' = None" by (simp add: registry_lookup)
  have c: "calculate_tax 50000 ''2025'' = Inr 9017.75"
    by (simp add: calculate_tax_table year_table_2025 brackets_2025_def)
  from unknown_year_falls_back [OF h, of 50000] h c show ?thesis by auto
qed

text \<open>
  C5. For every year and every taxable income \<open>x\<close>, the breakdown is the list of the
  entries of the brackets whose lower bound is strictly below \<open>x\<close>, in table order: a
  bracket of the table has an entry (an entry with its label) if and only if its lower
  bound is below \<open>x\<close>, and a bracket with lower bound \<open>\<ge> x\<close> has none.
\<close>

theorem breakdown_entries:
  "\<exists>es. get_bracket_breakdown x year = Inr es \<and>
        es = map (bracket_entry x) (filter (\<lambda>b. min_b b < x) (year_table year)) \<and>
        (\<forall>b \<in> set (year_table year). (bracket_label b \<in> Tranche ` set es) = (min_b b < x))"
proof -
  let ?es = "map (bracket_entry x) (filter (\<lambda>b. min_b b < x) (year_table year))"
  have eq: "get_bracket_breakdown x year = Inr ?es"
    using breakdown_loop_map [of x "year_table year" "[]"]
    by (simp add: get_bracket_breakdown_table entered_def [abs_def])
  have tr: "Tranche ` set ?es = bracket_label ` set (filter (\<lambda>b. min_b b < x) (year_table year))"
    by (simp add: image_image)
  have "(bracket_label b \<in> Tranche ` set ?es) = (min_b b < x)" if "b \<in> set (year_table year)" for b
    unfolding tr using labels_distinct that by (rule distinct_map_filter_mem)
  with eq show ?thesis by blast
qed

theorem breakdown_entries_witness:
  "\<lparr>min_b = 25659, max_b = Upto 73369, rate = 0.30\<rparr> \<in> set (year_table ''2025'') \<and>
   \<lparr>min_b = 73369, max_b = Upto 157806, rate = 0.41\<rparr> \<in> set (year_table ''2025'') \<and>
   (\<exists>es. get_bracket_breakdown 50000 ''2025'' = Inr es \<and> length es = 3 \<and>
         ''25,659 $ - 73,369 $'' \<in> Tranche ` set es \<and>
         ''73,369 $ - 157,806 $'' \<notin> Tranche ` set es)"
proof -
  let ?b3 = "\<lparr>min_b = 25659, max_b = Upto 73369, rate = 0.30\<rparr>"
  let ?b4 = "\<lparr>min_b = 73369, max_b = Upto 157806, rate = 0.41\<rparr>"
  have m3: "?b3 \<in> set (year_table ''2025'')" and m4: "?b4 \<in> set (year_table ''2025'')"
    by (simp_all add: year_table_2025 brackets_2025_def)
  have l3: "bracket_label ?b3 = ''25,659 $ - 73,369 $''"
    and l4: "bracket_label ?b4 = ''73,369 $ - 157,806 $''"
    by (simp_all add: bracket_label_def format_eval)
  from breakdown_entries [of 50000 "''2025''"] obtain es where
    es: "get_bracket_breakdown 50000 ''2025'' = Inr es"
    and eq: "es = map (bracket_entry 50000) (filter (\<lambda>b. min_b b < 50000) (year_table ''2025''))"
    and iff: "\<forall>b \<in> set (year_table ''2025''). (bracket_label b \<in> Tranche ` set es) = (min_b b < 50000)"
    by blast
  from eq have len: "length es = 3" by (simp add: year_table_2025 brackets_2025_def)
  from iff m3 have "(bracket_label ?b3 \<in> Tranche ` set es) = (min_b ?b3 < 50000)" by (rule bspec)
  with l3 have in3: "''25,659 $ - 73,369 $'' \<in> Tranche ` set es" by simp
  from iff m4 have "(bracket_label ?b4 \<in> Tranche ` set es) = (min_b ?b4 < 50000)" by (rule bspec)
  with l4 have out4: "''73,369 $ - 157,806 $'' \<notin> Tranche ` set es" by simp
  from m3 m4 es len in3 out4 show ?thesis by blast
qed

text \<open>
  C6. An income exactly equal to a bracket's lower bound is not taxed in that bracket: the
  test is the strict \<^verbatim>\<open>income > bracket["min"]\<close>, so for a bracket anywhere in a table
  both loops return what they return on the table without it. On the table of 2025,
  \<^verbatim>\<open>calculate_tax(10064, "2025")\<close> is 0 and the breakdown has the one entry of the first
  bracket.
\<close>

theorem lower_bound_not_taxed:
  "tax_loop (min_b b) (bs @ b # cs) t = tax_loop (min_b b) (bs @ cs) t \<and>
   breakdown_loop (min_b b) (bs @ b # cs) acc = breakdown_loop (min_b b) (bs @ cs) acc \<and>
   calculate_tax 10064 ''2025'' = Inr 0 \<and>
   (\<exists>e. get_bracket_breakdown 10064 ''2025'' = Inr [e] \<and> Tranche e = ''0 $ - 10,064 $'' \<and>
        tax_amount_raw e = 0)"
proof -
  have skip: "filter (entered (min_b b)) (bs @ b # cs) = filter (entered (min_b b)) (bs @ cs)"
    by (simp add: entered_def)
  have loop1: "tax_loop (min_b b) (bs @ b # cs) t = tax_loop (min_b b) (bs @ cs) t"
    by (simp only: tax_loop_marginal_sum marginal_sum_def skip)
  have loop2: "breakdown_loop (min_b b) (bs @ b # cs) acc = breakdown_loop (min_b b) (bs @ cs) acc"
    by (simp only: breakdown_loop_map skip)
  have tax: "calculate_tax 10064 ''2025'' = Inr 0"
    by (simp add: calculate_tax_table year_table_2025 brackets_2025_def)
  have bd: "get_bracket_breakdown 10064 ''2025'' = Inr [bracket_entry 10064 (hd brackets_2025)]"
    by (simp add: get_bracket_breakdown_table year_table_2025 breakdown_loop_map
        brackets_2025_def entered_def)
  have lab: "Tranche (bracket_entry 10064 (hd brackets_2025)) = ''0 $ - 10,064 $''"
    by (simp add: brackets_2025_def bracket_label_def format_eval)
  have raw: "tax_amount_raw (bracket_entry 10064 (hd brackets_2025)) = 0"
    by (simp add: brackets_2025_def bracket_tax_def)
  from loop1 loop2 tax bd lab raw show ?thesis by simp
qed

text \<open>
  C7. On the table of 2025 with income 50,000 and neither deductions nor credits, the
  contributions of the three brackets entered are 0 (0%), 1,715.45 (11%) and 7,302.30
  (30%); \<^verbatim>\<open>calculate_tax(50000, "2025")\<close> is 9,017.75; the effective rate is 18.0355,
  displayed as 18.04%; and the net income is 40,982.25. The values are those of exact
  arithmetic, and the strings are the ones the script displays.
\<close>

theorem scenario_50000:
  "calculate_tax 50000 ''2025'' = Inr 9017.75 \<and>
   (\<exists>es. get_bracket_breakdown 50000 ''2025'' = Inr es \<and>
         map tax_amount_raw es = [0, 1715.45, 7302.30] \<and>
         map Tranche es = [''0 $ - 10,064 $'', ''10,064 $ - 25,659 $'', ''25,659 $ - 73,369 $''] \<and>
         map Taux es = [''0%'', ''11%'', ''30%''] \<and>
         map Montant_d_Impot es = [''0.00 $'', ''1,715.45 $'', ''7,302.30 $'']) \<and>
   simple_summary 50000 0 0 =
     Inr (Some \<lparr>summary_taxable_income = 50000, summary_gross_tax = 9017.75, summary_total_tax = 9017.75,
                 summary_effective_rate = 18.0355, summary_net_income = 40982.25\<rparr>) \<and>
   format_f True 2 9017.75 @ '' $'' = ''9,017.75 $'' \<and>
   format_f False 2 18.0355 @ ''%'' = ''18.04%'' \<and>
   format_f True 2 40982.25 @ '' $'' = ''40,982.25 $''"
proof -
  have tax: "calculate_tax 50000 ''2025'' = Inr 9017.75"
    by (simp add: calculate_tax_table year_table_2025 brackets_2025_def)
  have bd: "get_bracket_breakdown 50000 ''2025'' = Inr (map (bracket_entry 50000) (take 3 brackets_2025))"
    by (simp add: get_bracket_breakdown_table year_table_2025 breakdown_loop_map
        brackets_2025_def entered_def)
  have raw: "map tax_amount_raw (map (bracket_entry 50000) (take 3 brackets_2025)) = [0, 1715.45, 7302.30]"
    by (simp add: brackets_2025_def bracket_tax_def)
  have lab: "map Tranche (map (bracket_entry 50000) (take 3 brackets_2025)) =
      [''0 $ - 10,064 $'', ''10,064 $ - 25,659 $'', ''25,659 $ - 73,369 $'']"
    by (simp add: brackets_2025_def bracket_label_def format_eval)
  have taux: "map Taux (map (bracket_entry 50000) (take 3 brackets_2025)) = [''0%'', ''11%'', ''30%'']"
    by (simp add: brackets_2025_def format_eval)
  have amt: "map Montant_d_Impot (map (bracket_entry 50000) (take 3 brackets_2025)) =
      [''0.00 $'', ''1,715.45 $'', ''7,302.30 $'']"
    by (simp add: brackets_2025_def bracket_tax_def format_eval)
  have summ: "simple_summary 50000 0 0 =
     Inr (Some \<lparr>summary_taxable_income = 50000, summary_gross_tax = 9017.75, summary_total_tax = 9017.75,
                 summary_effective_rate = 18.0355, summary_net_income = 40982.25\<rparr>)"
    by (simp add: simple_summary_def tax Let_def)
  have f1: "format_f True 2 9017.75 @ '' $'' = ''9,017.75 $''" by (simp add: format_eval)
  have f2: "format_f False 2 18.0355 @ ''%'' = ''18.04%''" by (simp add: format_eval)
  have f3: "format_f True 2 40982.25 @ '' $'' = ''40,982.25 $''" by (simp add: format_eval)
  from tax bd raw lab taux amt summ f1 f2 f3 show ?thesis by simp
qed

text \<open>
  C8. The tax is continuous at the bracket boundaries, up to rounding: for every year,
  every bracket of its table with a finite upper bound \<open>u\<close>, and every \<open>eps\<close> with
  \<open>0 < eps \<le> u - lower\<close>, the doubles \<^verbatim>\<open>calculate_tax(u, year)\<close> and
  \<^verbatim>\<open>calculate_tax(u - eps, year) + eps * rate\<close> differ by at most \<open>1/10^8\<close>: there is no
  jump at \<open>u\<close>. In exact arithmetic the two are equal (\<open>calculate_tax_segment_exact\<close>).
\<close>

theorem continuous_at_upper_bound_in_doubles:
  "b \<in> set (year_table year) \<Longrightarrow> max_b b = Upto u \<Longrightarrow> 0 < eps \<Longrightarrow> eps \<le> u - min_b b \<Longrightarrow>
   \<exists>tu tl. calculate_tax_double u year = Inr tu \<and>
           calculate_tax_double (fl_sub u eps) year = Inr tl \<and>
           \<bar>tu - fl_add tl (fl_mul eps (round_double (rate b)))\<bar> \<le> 1 / 10 ^ 8"
proof -
  assume b: "b \<in> set (year_table year)" and u: "max_b b = Upto u"
    and eps: "0 < eps" "eps \<le> u - min_b b"
  let ?T = "year_table year"
  define y where "y = u - eps"
  define yd where "yd = fl_sub u eps"
  define r where "r = rate b"
  define rr where "rr = round_double r"
  define w where "w = fl_mul eps rr"
  define tu where "tu = tax_loop_double u ?T 0"
  define tl where "tl = tax_loop_double yd ?T 0"
  define s where "s = tl + w"
  have lo: "0 \<le> min_b b" using year_table_partition b by (rule partition_lower)
  have r01: "0 \<le> r" "r \<le> 1" using partition_rate [OF year_table_partition b] by (simp_all add: r_def)
  have ub: "u \<le> 157806" using b u by (rule year_table_upper)
  from lo eps have y: "min_b b \<le> y" "y \<le> u" "0 \<le> y" "0 \<le> u" "eps \<le> u" by (simp_all add: y_def)
  \<comment> \<open>the exact values\<close>
  have seg: "marginal_sum u ?T = marginal_sum y ?T + eps * r"
    using marginal_sum_segment [OF year_table_partition b u y(1,2)] by (simp add: y_def r_def)
  have Su: "0 \<le> marginal_sum u ?T" "marginal_sum u ?T \<le> u"
    using marginal_sum_bounds [OF year_table_partition, of u year] y(4) by simp_all
  \<comment> \<open>the left side\<close>
  have e_tu: "\<bar>tu - marginal_sum u ?T\<bar> \<le> 35 * u / 2 ^ 53"
    unfolding tu_def using y(4) by (rule year_table_double_error)
  \<comment> \<open>the income of the right side\<close>
  have e_yd: "\<bar>yd - y\<bar> \<le> y / 2 ^ 53"
    unfolding yd_def fl_sub_def y_def [symmetric] using y(3) by (rule round_double_error_nonneg)
  with y have yd: "0 \<le> yd" "yd \<le> 2 * u" unfolding two_53 by linarith+
  have e_tl: "\<bar>tl - marginal_sum yd ?T\<bar> \<le> 35 * yd / 2 ^ 53"
    unfolding tl_def using yd(1) by (rule year_table_double_error)
  have lip: "\<bar>marginal_sum yd ?T - marginal_sum y ?T\<bar> \<le> \<bar>yd - y\<bar>"
  proof (cases "y \<le> yd")
    case True
    from marginal_sum_lipschitz [OF year_table_partition True, of year]
         marginal_sum_mono [OF year_table_partition True, of year] y(3) yd(1) True
    show ?thesis by simp
  next
    case False
    then have le: "yd \<le> y" by simp
    from marginal_sum_lipschitz [OF year_table_partition le, of year]
         marginal_sum_mono [OF year_table_partition le, of year] y(3) yd(1) le
    show ?thesis by simp
  qed
  \<comment> \<open>the product of the right side\<close>
  have e_rr: "\<bar>rr - r\<bar> \<le> r / 2 ^ 53"
    unfolding rr_def using r01(1) by (rule round_double_error_nonneg)
  from eps(1) have e0: "0 \<le> eps" by simp
  have "\<bar>eps * rr - eps * r\<bar> = eps * \<bar>rr - r\<bar>"
    using e0 by (simp add: abs_mult flip: right_diff_distrib)
  also from e_rr r01 have "\<bar>rr - r\<bar> \<le> 1 / 2 ^ 53" unfolding two_53 by linarith
  then have "eps * \<bar>rr - r\<bar> \<le> eps * (1 / 2 ^ 53)" using e0 by (rule mult_left_mono)
  finally have e_p: "\<bar>eps * rr - eps * r\<bar> \<le> eps / 2 ^ 53" by simp
  from r01 e0 have er: "0 \<le> eps * r" "eps * r \<le> eps"
    using fraction_of_amount [of eps r] by simp_all
  with e_p e0 have pb: "\<bar>eps * rr\<bar> \<le> 2 * eps" unfolding two_53 by linarith
  have "\<bar>w - eps * rr\<bar> \<le> \<bar>eps * rr\<bar> / 2 ^ 53"
    unfolding w_def fl_mul_def by (rule round_double_error)
  with pb e_p have e_w: "\<bar>w - eps * r\<bar> \<le> 3 * eps / 2 ^ 53" unfolding two_53 by linarith
  \<comment> \<open>the sum of the right side\<close>
  from e_tl lip e_yd e_w seg yd y
  have e_s: "\<bar>s - marginal_sum u ?T\<bar> \<le> 74 * u / 2 ^ 53"
    unfolding s_def two_53 by linarith
  with Su y(4) have sb: "\<bar>s\<bar> \<le> 2 * u" unfolding two_53 by linarith
  have "\<bar>round_double s - s\<bar> \<le> \<bar>s\<bar> / 2 ^ 53" by (rule round_double_error)
  with sb e_s e_tu have "\<bar>tu - round_double s\<bar> \<le> 111 * u / 2 ^ 53" unfolding two_53 by linarith
  with ub have "\<bar>tu - round_double s\<bar> \<le> 1 / 10 ^ 8" unfolding two_53 by simp
  then have "\<bar>tu - fl_add tl (fl_mul eps (round_double (rate b)))\<bar> \<le> 1 / 10 ^ 8"
    by (simp add: fl_add_def s_def w_def rr_def r_def)
  then show ?thesis
    by (simp add: calculate_tax_double_table tu_def tl_def yd_def)
qed

theorem continuous_at_upper_bound_in_doubles_witness:
  "\<lparr>min_b = 25659, max_b = Upto 73369, rate = 0.30\<rparr> \<in> set (year_table ''2025'') \<and>
   max_b \<lparr>min_b = 25659, max_b = Upto 73369, rate = 0.30\<rparr> = Upto 73369 \<and>
   (0::real) < 1 \<and> (1::real) \<le> 73369 - min_b \<lparr>min_b = 25659, max_b = Upto 73369, rate = 0.30\<rparr> \<and>
   calculate_tax_double 73369 ''2025'' = Inr (4405866787556557 / 274877906944) \<and>
   calculate_tax_double (fl_sub 73369 1) ''2025'' = Inr (8811568648368947 / 549755813888) \<and>
   \<bar>4405866787556557 / 274877906944 -
     fl_add (8811568648368947 / 549755813888)
       (fl_mul 1 (round_double (rate \<lparr>min_b = 25659, max_b = Upto 73369, rate = 0.30\<rparr>)))\<bar>
     \<le> 1 / 10 ^ 8"
proof -
  let ?b = "\<lparr>min_b = 25659, max_b = Upto 73369, rate = 0.30\<rparr>"
  have h1: "?b \<in> set (year_table ''2025'')" by (simp add: year_table_2025 brackets_2025_def)
  have h2: "max_b ?b = Upto 73369" by simp
  have h3: "(0::real) < 1" by simp
  have h4: "(1::real) \<le> 73369 - min_b ?b" by simp
  have s: "fl_sub 73369 1 = 73368" by (simp add: double_eval)
  have l: "calculate_tax_double 73369 ''2025'' = Inr (4405866787556557 / 274877906944)"
    by (simp add: calculate_tax_double_table year_table_2025 brackets_2025_def double_eval)
  have r: "calculate_tax_double (fl_sub 73369 1) ''2025'' = Inr (8811568648368947 / 549755813888)"
    unfolding s by (simp add: calculate_tax_double_table year_table_2025 brackets_2025_def double_eval)
  from continuous_at_upper_bound_in_doubles [OF h1 h2 h3 h4] obtain tu tl where
    o: "calculate_tax_double 73369 ''2025'' = Inr tu"
    "calculate_tax_double (fl_sub 73369 1) ''2025'' = Inr tl"
    "\<bar>tu - fl_add tl (fl_mul 1 (round_double (rate ?b)))\<bar> \<le> 1 / 10 ^ 8"
    by blast
  from o(1) l have tu: "tu = 4405866787556557 / 274877906944" by simp
  from o(2) r have tl: "tl = 8811568648368947 / 549755813888" by simp
  from o(3) have "\<bar>4405866787556557 / 274877906944 -
     fl_add (8811568648368947 / 549755813888) (fl_mul 1 (round_double (rate ?b)))\<bar> \<le> 1 / 10 ^ 8"
    unfolding tu tl .
  with h1 h2 h3 h4 l r show ?thesis by blast
qed

text \<open>
  The two sides are not equal as doubles. On the table of 2025, at the upper bound 73369
  of the 30% bracket and \<open>eps = 1\<close>, the left side is the double nearest to 16028.45 and
  the right side is the double just below it.
\<close>

theorem continuity_exact_fails_in_doubles:
  "\<lparr>min_b = 25659, max_b = Upto 73369, rate = 0.30\<rparr> \<in> set (year_table ''2025'') \<and>
   (0::real) < 1 \<and> (1::real) \<le> 73369 - 25659 \<and>
   fl_sub 73369 1 = 73368 \<and>
   calculate_tax_double 73369 ''2025'' = Inr (4405866787556557 / 274877906944) \<and>
   calculate_tax_double (fl_sub 73369 1) ''2025'' = Inr (8811568648368947 / 549755813888) \<and>
   fl_add (8811568648368947 / 549755813888) (fl_mul 1 (round_double 0.30)) =
     8811733575113113 / 549755813888 \<and>
   tax_loop_double 73369 brackets_2025 0 \<noteq>
     fl_add (tax_loop_double (fl_sub 73369 1) brackets_2025 0) (fl_mul 1 (round_double 0.30))"
proof -
  have m: "\<lparr>min_b = 25659, max_b = Upto 73369, rate = 0.30\<rparr> \<in> set (year_table ''2025'')"
    by (simp add: year_table_2025 brackets_2025_def)
  have s: "fl_sub 73369 1 = 73368" by (simp add: double_eval)
  have l: "tax_loop_double 73369 brackets_2025 0 = 4405866787556557 / 274877906944"
    by (simp add: brackets_2025_def double_eval)
  have r: "tax_loop_double 73368 brackets_2025 0 = 8811568648368947 / 549755813888"
    by (simp add: brackets_2025_def double_eval)
  have a: "fl_add (8811568648368947 / 549755813888) (fl_mul 1 (round_double 0.30)) =
      8811733575113113 / 549755813888"
    by (simp add: double_eval)
  have ne: "(4405866787556557 / 274877906944 :: real) \<noteq> 8811733575113113 / 549755813888"
    by simp
  from m s l r a ne show ?thesis
    by (simp only: calculate_tax_double_table year_table_2025) simp
qed

text \<open>
  C9. \<^verbatim>\<open>calculate_tax\<close> returns 0 for every taxable income \<open>\<le> 0\<close>, negative incomes
  included, and a non-negative number for every non-negative income, whatever the year.
\<close>

theorem zero_tax_below_zero:
  "(x \<le> 0 \<longrightarrow> calculate_tax x year = Inr 0) \<and>
   (0 \<le> x \<longrightarrow> (\<exists>t. calculate_tax x year = Inr t \<and> 0 \<le> t))"
  using marginal_sum_below [OF year_table_partition, of x year]
        marginal_sum_bounds [OF year_table_partition, of x year]
  by (simp add: calculate_tax_table tax_loop_marginal_sum)

theorem zero_tax_below_zero_witness:
  "calculate_tax (- 5000) ''2024'' = Inr 0 \<and> calculate_tax 0 ''2024'' = Inr 0 \<and>
   (\<exists>t. calculate_tax 30000 ''2024'' = Inr t \<and> 0 \<le> t \<and> t = 2881)"
proof -
  have c: "calculate_tax 30000 ''2024'' = Inr 2881"
    by (simp add: calculate_tax_table year_table_2024 brackets_2024_def)
  from zero_tax_below_zero [of "- 5000" "''2024''"] zero_tax_below_zero [of 0 "''2024''"]
       zero_tax_below_zero [of 30000 "''2024''"] c
  show ?thesis by simp
qed

text \<open>
  C10. For every year and every income \<open>x \<ge> 0\<close>, \<^verbatim>\<open>calculate_tax(x, year)\<close> is at most
  \<open>x\<close>, so the income minus the tax is never negative.
\<close>

theorem tax_at_most_income:
  "0 \<le> x \<Longrightarrow> \<exists>t. calculate_tax x year = Inr t \<and> t \<le> x \<and> 0 \<le> x - t"
  using marginal_sum_bounds [OF year_table_partition, of x year]
  by (simp add: calculate_tax_table tax_loop_marginal_sum)

theorem tax_at_most_income_witness:
  "(0::real) \<le> 200000 \<and> calculate_tax 200000 ''2025'' = Inr 69634.92 \<and>
   (\<exists>t. calculate_tax 200000 ''2025'' = Inr t \<and> t \<le> 200000 \<and> 0 \<le> 200000 - t)"
proof -
  have h: "(0::real) \<le> 200000" by simp
  have c: "calculate_tax 200000 ''2025'' = Inr 69634.92"
    by (simp add: calculate_tax_table year_table_2025 brackets_2025_def)
  from tax_at_most_income [OF h, of "''2025''"] c show ?thesis by simp
qed

end
